theory Spec2Isabelle
  imports
    Complex_Main
    "HOL-Library.AList"
    "HOL-Library.Char_ord"
    "HOL-Library.List_Lexorder"
    "HOL-Library.Product_Lexorder"
    "HOL-Library.Multiset"
begin

section \<open>Python strings\<close>

text \<open>
  A Python \<open>str\<close> is modelled as a \<open>string\<close> (a list of 8-bit characters), which covers
  the Latin-1 range of code points. The whitespace characters of \<open>str.strip\<close>,
  \<open>str.isspace\<close> and the regular expression class \<open>\s\<close> in that range are
  TAB, LF, VT, FF, CR, the separators 0x1C to 0x1F, the space, NEL and the no-break space.
\<close>

definition is_space :: "char \<Rightarrow> bool" where
  "is_space c \<longleftrightarrow> c \<in> set [CHR 0x09, CHR 0x0A, CHR 0x0B, CHR 0x0C, CHR 0x0D,
     CHR 0x1C, CHR 0x1D, CHR 0x1E, CHR 0x1F, CHR 0x20, CHR 0x85, CHR 0xA0]"

definition is_digit :: "char \<Rightarrow> bool" where
  "is_digit c \<longleftrightarrow> c \<in> set ''0123456789''"

definition strip :: "string \<Rightarrow> string" where
  "strip s = rev (dropWhile is_space (rev (dropWhile is_space s)))"

fun startswith :: "string \<Rightarrow> string \<Rightarrow> bool" where
  "startswith s [] = True"
| "startswith [] (p # ps) = False"
| "startswith (c # cs) (p # ps) = (c = p \<and> startswith cs ps)"

text \<open>\<open>sub in s\<close> for strings: \<open>sub\<close> occurs as a contiguous substring of \<open>s\<close>.\<close>

fun contains :: "string \<Rightarrow> string \<Rightarrow> bool" where
  "contains [] sub = (sub = [])"
| "contains (c # cs) sub = (startswith (c # cs) sub \<or> contains cs sub)"

text \<open>\<open>s.find(c)\<close> for a single character; \<open>None\<close> stands for the result \<open>-1\<close>.\<close>

fun find_char :: "char \<Rightarrow> string \<Rightarrow> nat option" where
  "find_char c [] = None"
| "find_char c (x # xs) =
     (if x = c then Some 0 else map_option Suc (find_char c xs))"

text \<open>\<open>s.split(c)\<close> for a single-character separator: always at least one part.\<close>

fun split :: "char \<Rightarrow> string \<Rightarrow> string list" where
  "split c [] = [[]]"
| "split c (x # xs) =
     (if x = c then [] # split c xs
      else (case split c xs of [] \<Rightarrow> [[x]] | w # ws \<Rightarrow> (x # w) # ws))"


definition digit_val :: "char \<Rightarrow> nat" where
  "digit_val c = of_char c - 48"

text \<open>\<open>int(s)\<close> on a non-empty string of decimal digits.\<close>

definition nat_of_digits :: "string \<Rightarrow> nat" where
  "nat_of_digits ds = foldl (\<lambda>a c. 10 * a + digit_val c) 0 ds"

section \<open>Python floats\<close>

text \<open>
  A Python float is a finite number, an infinity or a NaN. Finite values are modelled by
  the real number they denote: the rounding of the binary64 format is abstracted, its
  overflow to infinity is kept, because the code branches on \<open>isfinite\<close>.
\<close>

datatype pyfloat = Fin real | PosInf | NegInf | NaN

fun isfinite :: "pyfloat \<Rightarrow> bool" where
  "isfinite (Fin x) = True"
| "isfinite PosInf = False"
| "isfinite NegInf = False"
| "isfinite NaN = False"

text \<open>
  The built-in \<open>float(s)\<close> on a string, after CPython's \<open>PyFloat_FromString\<close>:
  surrounding whitespace is dropped; an underscore is accepted only between two digits
  and removed; what remains is an optional sign followed by \<open>inf\<close>, \<open>infinity\<close> or
  \<open>nan\<close> in any case, or by a decimal literal with an optional fraction and an optional
  exponent. \<open>None\<close> stands for the \<open>ValueError\<close>.
\<close>

fun strip_underscores :: "char \<Rightarrow> string \<Rightarrow> string option" where
  "strip_underscores prev [] = (if prev = CHR ''_'' then None else Some [])"
| "strip_underscores prev (c # cs) =
     (if c = CHR ''_'' then
        (if is_digit prev then strip_underscores c cs else None)
      else if prev = CHR ''_'' \<and> \<not> is_digit c then None
      else map_option ((#) c) (strip_underscores c cs))"

definition lower_char :: "char \<Rightarrow> char" where
  "lower_char c =
     (if c \<in> set ''ABCDEFGHIJKLMNOPQRSTUVWXYZ'' then char_of (of_char c + (32::nat)) else c)"

definition split_sign :: "string \<Rightarrow> bool \<times> string" where
  "split_sign s =
     (case s of
        [] \<Rightarrow> (False, [])
      | c # cs \<Rightarrow>
          if c = CHR ''-'' then (True, cs)
          else if c = CHR ''+'' then (False, cs)
          else (False, c # cs))"

text \<open>
  The largest finite binary64 value is \<open>2^1024 - 2^971\<close>; a decimal literal of magnitude
  at least \<open>2^1024 - 2^970\<close> (half a unit in the last place above it) is read as an infinity.
\<close>

definition round_overflow :: "real \<Rightarrow> pyfloat" where
  "round_overflow x =
     (if 2 ^ 1024 - 2 ^ 970 \<le> \<bar>x\<bar> then (if 0 < x then PosInf else NegInf) else Fin x)"

definition scale10 :: "nat \<Rightarrow> int \<Rightarrow> real" where
  "scale10 m e = (if 0 \<le> e then real m * 10 ^ nat e else real m / 10 ^ nat (- e))"

definition parse_exponent :: "string \<Rightarrow> int option" where
  "parse_exponent s =
     (case s of
        [] \<Rightarrow> Some 0
      | c # cs \<Rightarrow>
          if c = CHR ''e'' \<or> c = CHR ''E'' then
            (case split_sign cs of (neg, ds) \<Rightarrow>
               if ds \<noteq> [] \<and> list_all is_digit ds
               then Some (if neg then - int (nat_of_digits ds) else int (nat_of_digits ds))
               else None)
          else None)"

definition parse_decimal :: "string \<Rightarrow> real option" where
  "parse_decimal s =
     (let ip = takeWhile is_digit s;
          r1 = dropWhile is_digit s;
          fp = (case r1 of [] \<Rightarrow> [] | c # cs \<Rightarrow>
                  if c = CHR ''.'' then takeWhile is_digit cs else []);
          r2 = (case r1 of [] \<Rightarrow> [] | c # cs \<Rightarrow>
                  if c = CHR ''.'' then dropWhile is_digit cs else r1)
      in if ip = [] \<and> fp = [] then None
         else (case parse_exponent r2 of
                 None \<Rightarrow> None
               | Some e \<Rightarrow> Some (scale10 (nat_of_digits (ip @ fp)) (e - int (length fp)))))"

definition parse_float_ascii :: "string \<Rightarrow> pyfloat option" where
  "parse_float_ascii s =
     (case split_sign s of (neg, body) \<Rightarrow>
        if map lower_char body = ''inf'' \<or> map lower_char body = ''infinity''
        then Some (if neg then NegInf else PosInf)
        else if map lower_char body = ''nan'' then Some NaN
        else (case parse_decimal body of
                None \<Rightarrow> None
              | Some x \<Rightarrow> Some (round_overflow (if neg then - x else x))))"

definition float_of :: "string \<Rightarrow> pyfloat option" where
  "float_of s =
     (case strip_underscores (CHR 0x00) (strip s) of
        None \<Rightarrow> None
      | Some t \<Rightarrow> parse_float_ascii t)"

section \<open>Record extraction from CSV (analysis/scripts/app.py)\<close>

datatype error = FileNotFoundError | TypeError

text \<open>
  The dictionary stored per variable by \<open>parse_variables_csv\<close>; the key \<open>"type"\<close> is
  the field \<open>vtype\<close>. A dictionary of variables is an association list in insertion
  order; \<open>AList.update\<close> replaces the value of a key that is present and appends a new
  key at the end, as assignment to a Python dict does.
\<close>

record var_info =
  value_str :: string
  value_num :: "real option"
  lower :: string
  upper :: string
  vtype :: string
  units :: string
  source_line :: nat

type_synonym vars = "(string \<times> var_info) list"

text \<open>
  Lines 74 to 81: \<open>float(val_str)\<close>, with a non-finite result and a \<open>ValueError\<close>
  both giving \<open>None\<close>.
\<close>

definition to_num :: "string \<Rightarrow> real option" where
  "to_num val_str =
     (case float_of val_str of
        None \<Rightarrow> None
      | Some num \<Rightarrow>
          if \<not> isfinite num then None
          else (case num of Fin x \<Rightarrow> Some x | _ \<Rightarrow> None))"

text \<open>\<open>(parts + [""] * n)[:n]\<close>\<close>

definition pad :: "nat \<Rightarrow> string list \<Rightarrow> string list" where
  "pad n parts = take n (parts @ replicate n [])"

text \<open>
  The split of one stripped, non-empty line into the name and the five fields
  (lines 40 to 69); \<open>None\<close> is a \<open>continue\<close>.
\<close>

definition regular_csv :: "string \<Rightarrow> (string \<times> string \<times> string \<times> string \<times> string \<times> string) option" where
  "regular_csv line =
     (let parts = split (CHR '','') line
      in if length parts < 2 then None
         else (let ps = map strip (pad 6 parts)
               in Some (ps ! 0, ps ! 1, ps ! 2, ps ! 3, ps ! 4, ps ! 5)))"

definition csv_fields :: "string \<Rightarrow> (string \<times> string \<times> string \<times> string \<times> string \<times> string) option" where
  "csv_fields line =
     (if CHR ''('' \<in> set line \<and> CHR '')'' \<in> set line then
        (case find_char (CHR '')'') line of
           Some paren_end \<Rightarrow>
             (let name = take (paren_end + 1) line;
                  rest0 = drop (paren_end + 1) line;
                  rest = (if startswith rest0 '','' then drop 1 rest0 else rest0);
                  parts = split (CHR '','') rest
              in if 1 \<le> length parts then
                   (let ps = map strip (pad 5 parts)
                    in Some (name, ps ! 0, ps ! 1, ps ! 2, ps ! 3, ps ! 4))
                 else None)
         | None \<Rightarrow> regular_csv line)
      else regular_csv line)"

text \<open>The body of the loop over the numbered lines of the file.\<close>

definition csv_step :: "vars \<Rightarrow> nat \<times> string \<Rightarrow> vars" where
  "csv_step vars_dict il =
     (case il of (i, raw) \<Rightarrow>
        (let line = strip raw
         in if line = [] then vars_dict
            else (case csv_fields line of
                    None \<Rightarrow> vars_dict
                  | Some (name, val_str, lo, up, ty, un) \<Rightarrow>
                      if name = [] then vars_dict
                      else AList.update name
                             \<lparr>value_str = val_str, value_num = to_num val_str,
                              lower = lo, upper = up, vtype = ty, units = un,
                              source_line = i\<rparr> vars_dict)))"

definition enumerate1 :: "'a list \<Rightarrow> (nat \<times> 'a) list" where
  "enumerate1 xs = zip [1 ..< Suc (length xs)] xs"

text \<open>
  The file is its list of lines, or \<open>None\<close> when the path is not a file, which raises
  before anything is read.
\<close>

definition parse_variables_csv :: "string list option \<Rightarrow> error + vars" where
  "parse_variables_csv file =
     (case file of
        None \<Rightarrow> Inl FileNotFoundError
      | Some lines \<Rightarrow> Inr (foldl csv_step [] (enumerate1 lines)))"

section \<open>The comparator (analysis/scripts/app.py)\<close>

text \<open>
  A row of the difference table. The columns \<open>abs_diff\<close> and \<open>rel_diff\<close> hold the number
  that the code formats into the cell, \<open>None\<close> for the empty cell; every other column is
  the string the code stores.
\<close>

record diff_row =
  variable :: string
  status :: string
  value1 :: string
  value2 :: string
  abs_diff :: "real option"
  rel_diff :: "real option"
  in_tolerance :: string
  type1 :: string
  type2 :: string
  units1 :: string
  units2 :: string

record counts =
  only_in_1 :: nat
  only_in_2 :: nat
  equal_within_tol :: nat
  different :: nat

definition tiny :: real where
  "tiny = 1 / 10 ^ 300"

text \<open>
  One iteration of the loop over the keys (lines 110 to 174): the row of key \<open>k\<close> and
  the updated counters. Subscripting \<open>b\<close> when both lookups are \<open>None\<close> would raise a
  \<open>TypeError\<close>.
\<close>

definition compare_key ::
  "vars \<Rightarrow> vars \<Rightarrow> real \<Rightarrow> real \<Rightarrow> counts \<Rightarrow> string \<Rightarrow> error + (diff_row \<times> counts)" where
  "compare_key d1 d2 abs_tol rel_tol cnt k =
     (case map_of d1 k of
        None \<Rightarrow>
          (case map_of d2 k of
             None \<Rightarrow> Inl TypeError
           | Some b \<Rightarrow>
               Inr (\<lparr>variable = k, status = ''only_in_2'', value1 = [], value2 = value_str b,
                     abs_diff = None, rel_diff = None, in_tolerance = ''false'',
                     type1 = [], type2 = vtype b, units1 = [], units2 = units b\<rparr>,
                    cnt\<lparr>only_in_2 := only_in_2 cnt + 1\<rparr>))
      | Some a \<Rightarrow>
          (case map_of d2 k of
             None \<Rightarrow>
               Inr (\<lparr>variable = k, status = ''only_in_1'', value1 = value_str a, value2 = [],
                     abs_diff = None, rel_diff = None, in_tolerance = ''false'',
                     type1 = vtype a, type2 = [], units1 = units a, units2 = []\<rparr>,
                    cnt\<lparr>only_in_1 := only_in_1 cnt + 1\<rparr>)
           | Some b \<Rightarrow>
               (case (value_num a, value_num b) of
                  (Some n1, Some n2) \<Rightarrow>
                    (let abs_d = \<bar>n1 - n2\<bar>;
                         denom = max \<bar>n1\<bar> (max \<bar>n2\<bar> tiny);
                         rel_d = abs_d / denom;
                         in_tol = (abs_d \<le> abs_tol \<or> rel_d \<le> rel_tol)
                     in Inr (\<lparr>variable = k,
                              status = (if in_tol then ''equal_within_tol'' else ''different''),
                              value1 = value_str a, value2 = value_str b,
                              abs_diff = Some abs_d, rel_diff = Some rel_d,
                              in_tolerance = (if in_tol then ''true'' else ''false''),
                              type1 = vtype a, type2 = vtype b,
                              units1 = units a, units2 = units b\<rparr>,
                             (if in_tol then cnt\<lparr>equal_within_tol := equal_within_tol cnt + 1\<rparr>
                              else cnt\<lparr>different := different cnt + 1\<rparr>)))
                | _ \<Rightarrow>
                    (let equal = (strip (value_str a) = strip (value_str b))
                     in Inr (\<lparr>variable = k,
                              status = (if equal then ''equal_within_tol'' else ''different''),
                              value1 = value_str a, value2 = value_str b,
                              abs_diff = None, rel_diff = None,
                              in_tolerance = (if equal then ''true'' else ''false''),
                              type1 = vtype a, type2 = vtype b,
                              units1 = units a, units2 = units b\<rparr>,
                             (if equal then cnt\<lparr>equal_within_tol := equal_within_tol cnt + 1\<rparr>
                              else cnt\<lparr>different := different cnt + 1\<rparr>))))))"

fun compare_loop ::
  "vars \<Rightarrow> vars \<Rightarrow> real \<Rightarrow> real \<Rightarrow> string list \<Rightarrow> diff_row list \<times> counts
     \<Rightarrow> error + (diff_row list \<times> counts)" where
  "compare_loop d1 d2 abs_tol rel_tol [] acc = Inr acc"
| "compare_loop d1 d2 abs_tol rel_tol (k # ks) acc =
     (case compare_key d1 d2 abs_tol rel_tol (snd acc) k of
        Inl e \<Rightarrow> Inl e
      | Inr (row, cnt) \<Rightarrow> compare_loop d1 d2 abs_tol rel_tol ks (fst acc @ [row], cnt))"

text \<open>\<open>sorted(set(d1.keys()) | set(d2.keys()))\<close>, strings ordered by code point.\<close>

definition sorted_keys :: "vars \<Rightarrow> vars \<Rightarrow> string list" where
  "sorted_keys d1 d2 = sort (remdups (map fst d1 @ map fst d2))"

definition compare_dicts ::
  "vars \<Rightarrow> vars \<Rightarrow> real \<Rightarrow> real \<Rightarrow> error + (diff_row list \<times> counts)" where
  "compare_dicts d1 d2 abs_tol rel_tol =
     compare_loop d1 d2 abs_tol rel_tol (sorted_keys d1 d2)
       ([], \<lparr>only_in_1 = 0, only_in_2 = 0, equal_within_tol = 0, different = 0\<rparr>)"




text \<open>The row of a table that reports a given variable.\<close>

definition row_of :: "string \<Rightarrow> diff_row list \<Rightarrow> diff_row option" where
  "row_of k rows = find (\<lambda>r. variable r = k) rows"

section \<open>Record extraction from a run file (scripts/analyse.py)\<close>

text \<open>
  \<open>read_all_values_from_txt\<close> returns the dictionary from path to float; the model also
  returns the lines it prints. The file is its list of lines, or \<open>None\<close> when it does not
  exist. A \<open>path_prefix\<close> that is \<open>None\<close> or empty filters nothing.
\<close>

type_synonym txt_values = "(string \<times> pyfloat) list"

definition convert_warning :: "string \<Rightarrow> string \<Rightarrow> string" where
  "convert_warning val_str path_name =
     ''Warning: Could not convert value '' @ [CHR 0x27] @ val_str @ [CHR 0x27]
       @ '' to float for path '' @ [CHR 0x27] @ path_name @ [CHR 0x27]"

definition txt_step ::
  "string option \<Rightarrow> txt_values \<times> string list \<Rightarrow> string \<Rightarrow> txt_values \<times> string list" where
  "txt_step path_prefix acc raw =
     (case acc of (values_dict, printed) \<Rightarrow>
        (let line = strip raw
         in if line = [] \<or> startswith line ''#'' then acc
            else (let parts = map strip (split (CHR '':'') line)
                  in if 6 \<le> length parts then
                       (let path_name = parts ! 0; val_str = parts ! 1
                        in if (case path_prefix of
                                 None \<Rightarrow> False
                               | Some p \<Rightarrow> p \<noteq> [] \<and> \<not> startswith path_name p)
                           then acc
                           else (case float_of val_str of
                                   Some v \<Rightarrow> (AList.update path_name v values_dict, printed)
                                 | None \<Rightarrow>
                                     (values_dict,
                                      printed @ [convert_warning val_str path_name])))
                     else acc)))"

definition read_all_values_from_txt ::
  "string \<Rightarrow> string list option \<Rightarrow> string option \<Rightarrow> txt_values \<times> string list" where
  "read_all_values_from_txt file_path file path_prefix =
     (case file of
        None \<Rightarrow> ([], [''File '' @ [CHR 0x27] @ file_path @ [CHR 0x27] @ '' not found''])
      | Some lines \<Rightarrow> foldl (txt_step path_prefix) ([], []) lines)"

section \<open>Stage data of the absorber (analysis/scripts/co2_equilibrium.py)\<close>

text \<open>
  Each of the three regular expressions of \<open>REQUIRED_VARIABLES\<close> has the shape
  \<^verbatim>\<open>Plant\.Absorber\.Stage\((\d+)\)\<close> \<open>literal\<close> \<^verbatim>\<open>\s*:\s*([+-]?[0-9.eE+ -]+)\<close>
  and is kept as its name and its literal part, in the order of the dictionary.
\<close>

definition REQUIRED_VARIABLES :: "(string \<times> string) list" where
  "REQUIRED_VARIABLES =
     [(''pressure'', ''.trans_prop.stg_pressure''),
      (''co2_mole_frac'', ''.trans_prop.mole_frac_vap('' @ [CHR 0x22] @ ''CO2'' @ [CHR 0x22] @ '')''),
      (''loading_co2'', ''.trans_prop.loading_CO2'')]"

text \<open>The rest of \<open>s\<close> after the literal \<open>p\<close>, when \<open>s\<close> starts with it.\<close>

fun drop_prefix :: "string \<Rightarrow> string \<Rightarrow> string option" where
  "drop_prefix [] s = Some s"
| "drop_prefix (p # ps) [] = None"
| "drop_prefix (p # ps) (c # cs) = (if p = c then drop_prefix ps cs else None)"

text \<open>The character class \<^verbatim>\<open>[0-9.eE+ -]\<close>.\<close>

definition value_char :: "char \<Rightarrow> bool" where
  "value_char c \<longleftrightarrow> is_digit c \<or> c \<in> set ''.eE+ -''"

text \<open>
  The tail \<^verbatim>\<open>\s*([+-]?[0-9.eE+ -]+)\<close> of the expression on the text after the colon.
  The greedy \<^verbatim>\<open>\s*\<close> first takes all \<open>n\<close> leading whitespace characters and gives them
  back one at a time while the group finds nothing to match; the group, whose optional
  sign belongs to the class, matches the longest run of class characters.
\<close>

fun value_group :: "nat \<Rightarrow> string \<Rightarrow> string option" where
  "value_group n s =
     (let g = takeWhile value_char (drop n s)
      in if g \<noteq> [] then Some g
         else (case n of 0 \<Rightarrow> None | Suc m \<Rightarrow> value_group m s))"

text \<open>\<open>pattern.match(line)\<close>: the two groups, or \<open>None\<close>. The match is anchored at the start only.\<close>

definition match_pattern :: "string \<Rightarrow> string \<Rightarrow> (string \<times> string) option" where
  "match_pattern literal line =
     (case drop_prefix ''Plant.Absorber.Stage('' line of
        None \<Rightarrow> None
      | Some r1 \<Rightarrow>
          (let ds = takeWhile is_digit r1
           in if ds = [] then None
              else (case drop_prefix ('')'' @ literal) (dropWhile is_digit r1) of
                      None \<Rightarrow> None
                    | Some r2 \<Rightarrow>
                        (case dropWhile is_space r2 of
                           [] \<Rightarrow> None
                         | c # r3 \<Rightarrow>
                             if c = CHR '':'' then
                               (case value_group (length (takeWhile is_space r3)) r3 of
                                  None \<Rightarrow> None
                                | Some g \<Rightarrow> Some (ds, g))
                             else None))))"

type_synonym stage_data = "(nat \<times> (string \<times> pyfloat) list) list"

text \<open>\<open>str(n)\<close> for a natural number.\<close>

function str_nat :: "nat \<Rightarrow> string" where
  "str_nat n =
     (if n < 10 then [char_of (48 + n)]
      else str_nat (n div 10) @ [char_of (48 + n mod 10)])"
  by pat_completeness auto
termination
  by (relation "measure id") auto

definition stage_warning :: "string \<Rightarrow> nat \<Rightarrow> string \<Rightarrow> string" where
  "stage_warning val_str stage_num var_name =
     ''Warning: Could not parse value '' @ [CHR 0x27] @ val_str @ [CHR 0x27]
       @ '' for Stage('' @ str_nat stage_num @ '') '' @ var_name"

text \<open>
  The inner loop over the patterns for one line. \<open>stage_data[stage_num][var_name] = value\<close>
  creates the inner dictionary of a new stage first.
\<close>

definition stage_var_step ::
  "string \<Rightarrow> stage_data \<times> string list \<Rightarrow> string \<times> string \<Rightarrow> stage_data \<times> string list" where
  "stage_var_step line acc var =
     (case acc of (stage_data, printed) \<Rightarrow>
      (case var of (var_name, literal) \<Rightarrow>
        (case match_pattern literal line of
           None \<Rightarrow> acc
         | Some (g1, g2) \<Rightarrow>
             (let stage_num = nat_of_digits g1;
                  val_str = filter (\<lambda>c. c \<noteq> CHR '' '') (strip g2)
              in (case float_of val_str of
                    Some v \<Rightarrow>
                      (let inner = (case map_of stage_data stage_num of
                                      None \<Rightarrow> [] | Some d \<Rightarrow> d)
                       in (AList.update stage_num (AList.update var_name v inner) stage_data,
                           printed))
                  | None \<Rightarrow>
                      (stage_data,
                       printed @ [stage_warning val_str stage_num var_name]))))))"

definition stage_line_step :: "stage_data \<times> string list \<Rightarrow> string \<Rightarrow> stage_data \<times> string list" where
  "stage_line_step acc raw =
     (let line = strip raw
      in if line = [] \<or> startswith line ''#'' then acc
         else foldl (stage_var_step line) acc REQUIRED_VARIABLES)"

text \<open>
  The stage dictionary, with the warnings about values that do not parse; the progress
  and error messages are left out. A file that does not exist gives the empty dictionary.
\<close>

definition extract_stage_data :: "string list option \<Rightarrow> stage_data \<times> string list" where
  "extract_stage_data file =
     (case file of
        None \<Rightarrow> ([], [])
      | Some lines \<Rightarrow> foldl stage_line_step ([], []) lines)"

section \<open>Flowsheet comparison with summed absorbents (analysis/scripts/test.py)\<close>

text \<open>
  A flowsheet dictionary maps a name to a finite float. A comparison is the tuple
  \<open>(name, v1, v2, abs_diff, pct_diff, note)\<close> of the source; only \<open>pct_diff\<close> can be an
  infinity.
\<close>

type_synonym flows = "(string \<times> real) list"

type_synonym comp = "string \<times> real option \<times> real option \<times> real option \<times> pyfloat option \<times> string"

definition is_absorbent_key :: "string \<Rightarrow> bool" where
  "is_absorbent_key key = contains key ''ABSORBENT''"

text \<open>
  \<open>math.isclose(a, b, rel_tol=rel_tol, abs_tol=abs_tol)\<close> on finite floats; a negative
  tolerance raises \<open>ValueError\<close>.
\<close>

datatype flow_error = KeyError | ValueError

definition isclose :: "real \<Rightarrow> real \<Rightarrow> real \<Rightarrow> real \<Rightarrow> flow_error + bool" where
  "isclose a b rel_tol abs_tol =
     (if rel_tol < 0 \<or> abs_tol < 0 then Inl ValueError
      else Inr (a = b \<or> \<bar>b - a\<bar> \<le> \<bar>rel_tol * b\<bar> \<or> \<bar>b - a\<bar> \<le> \<bar>rel_tol * a\<bar>
                  \<or> \<bar>b - a\<bar> \<le> abs_tol))"

text \<open>\<open>d[k]\<close>, which raises \<open>KeyError\<close> on a missing key.\<close>

definition subscript :: "flows \<Rightarrow> string \<Rightarrow> flow_error + real" where
  "subscript d k = (case map_of d k of None \<Rightarrow> Inl KeyError | Some v \<Rightarrow> Inr v)"

type_synonym pre_map = "(string \<times> real option \<times> real option \<times> string) list"

text \<open>
  One of the two symmetric blocks: \<open>da\<close> holds the two absorbent keys \<open>abs_a\<close>, \<open>db\<close> the
  single key. The result is the sum and the single value when they are close.
\<close>

definition sum_matches ::
  "flows \<Rightarrow> string list \<Rightarrow> flows \<Rightarrow> string list \<Rightarrow> real \<Rightarrow> flow_error + (string \<times> real \<times> real) option" where
  "sum_matches da abs_a db abs_b tol =
     (if length abs_a = 2 \<and> length abs_b = 1 then
        (case (subscript da (abs_a ! 0), subscript da (abs_a ! 1), subscript db (abs_b ! 0)) of
           (Inr x, Inr y, Inr z) \<Rightarrow>
             (let s = x + y; other_key = abs_b ! 0
              in (case isclose s z (1 / 10 ^ 8) tol of
                    Inl e \<Rightarrow> Inl e
                  | Inr close \<Rightarrow> if close then Inr (Some (other_key, s, z)) else Inr None))
         | _ \<Rightarrow> Inl KeyError)
      else Inr None)"

definition match_and_sum_absorbents ::
  "flows \<Rightarrow> flows \<Rightarrow> real \<Rightarrow> flow_error + (pre_map \<times> string list \<times> string list)" where
  "match_and_sum_absorbents d1 d2 tol =
     (let abs1 = filter is_absorbent_key (map fst d1);
          abs2 = filter is_absorbent_key (map fst d2)
      in (case sum_matches d1 abs1 d2 abs2 tol of
            Inl e \<Rightarrow> Inl e
          | Inr m1 \<Rightarrow>
              (case (case m1 of
                       None \<Rightarrow> ([], [], [])
                     | Some (other_key, s, z) \<Rightarrow>
                         (AList.update other_key
                            (Some s, Some z, ''sum of two absorbents in file1 vs single in file2'') [],
                          abs1, [other_key])) of
                 (results, consumed1, consumed2) \<Rightarrow>
                   (case sum_matches d2 abs2 d1 abs1 tol of
                      Inl e \<Rightarrow> Inl e
                    | Inr m2 \<Rightarrow>
                        (case m2 of
                           None \<Rightarrow> Inr (results, consumed1, consumed2)
                         | Some (other_key, s, z) \<Rightarrow>
                             Inr (AList.update other_key
                                    (Some z, Some s,
                                     ''single in file1 vs sum of two absorbents in file2'') results,
                                  consumed1 @ [other_key], consumed2 @ abs2))))))"

text \<open>The difference columns of one comparison (lines 103 to 113 and 124 to 134).\<close>

definition diff_columns :: "real option \<Rightarrow> real option \<Rightarrow> real option \<times> pyfloat option" where
  "diff_columns v1 v2 =
     (case (v1, v2) of
        (Some x, Some y) \<Rightarrow>
          (Some (x - y),
           Some (if \<bar>y\<bar> < 1 / 10 ^ 12 then (if x - y \<noteq> 0 then PosInf else Fin 0)
                 else Fin ((x - y) / y * 100)))
      | _ \<Rightarrow> (None, None))"

definition pre_comp :: "string \<times> real option \<times> real option \<times> string \<Rightarrow> comp" where
  "pre_comp item =
     (case item of (name, v1, v2, note) \<Rightarrow>
        (case diff_columns v1 v2 of (abs_d, pct_d) \<Rightarrow> (name, v1, v2, abs_d, pct_d, note)))"

definition key_comp :: "flows \<Rightarrow> flows \<Rightarrow> string \<Rightarrow> comp" where
  "key_comp d1 d2 k =
     (let v1 = map_of d1 k; v2 = map_of d2 k
      in (case diff_columns v1 v2 of (abs_d, pct_d) \<Rightarrow> (k, v1, v2, abs_d, pct_d, [])))"

text \<open>The sort key: the magnitude of a finite percentage, \<open>-1\<close> otherwise.\<close>

definition pct_key :: "comp \<Rightarrow> real" where
  "pct_key t =
     (case t of (name, v1, v2, abs_d, pct_d, note) \<Rightarrow>
        (case pct_d of Some (Fin p) \<Rightarrow> \<bar>p\<bar> | _ \<Rightarrow> - 1))"

text \<open>
  \<open>xs.sort(key=f, reverse=True)\<close> is stable: elements with equal keys keep their order.
\<close>

definition sort_reverse :: "('a \<Rightarrow> real) \<Rightarrow> 'a list \<Rightarrow> 'a list" where
  "sort_reverse f xs = rev (sort_key f (rev xs))"

text \<open>
  \<open>build_comparisons\<close>. The order in which Python iterates over the set of keys is not
  specified; it is the argument \<open>key_order\<close>, a list holding each key of the union once.
  The default tolerance \<open>1e-8\<close> of \<open>match_and_sum_absorbents\<close> is used.
\<close>

definition build_comparisons :: "string list \<Rightarrow> flows \<Rightarrow> flows \<Rightarrow> flow_error + comp list" where
  "build_comparisons key_order d1 d2 =
     (case match_and_sum_absorbents d1 d2 (1 / 10 ^ 8) of
        Inl e \<Rightarrow> Inl e
      | Inr (pre, consumed1, consumed2) \<Rightarrow>
          Inr (sort_reverse pct_key
                 (map pre_comp pre
                  @ map (key_comp d1 d2)
                      (filter (\<lambda>k. \<not> (k \<in> set consumed1 \<or> k \<in> set consumed2)) key_order))))"

definition comp_name :: "comp \<Rightarrow> string" where
  "comp_name t = fst t"

section \<open>Reconstruction of a run file (scripts/concatenate.py)\<close>



text \<open>
  A variable read from the organised folders. The keys \<open>'type'\<close> and \<open>'units'\<close> of the
  source are the fields \<open>var_type\<close> and \<open>var_units\<close>.
\<close>

record variable_data =
  path :: string
  val :: string
  lower_bound :: string
  upper_bound :: string
  var_type :: string
  var_units :: string
  source_file :: string

text \<open>\<open>{path: i for i, path in enumerate(order_list)}\<close>: a repeated path keeps its last index.\<close>

definition order_map :: "string list \<Rightarrow> (string \<times> nat) list" where
  "order_map order_list =
     foldl (\<lambda>m ip. AList.update (snd ip) (fst ip) m) [] (zip [0 ..< length order_list] order_list)"





text \<open>The rank of a path of the ordering file: its last position in the list.\<close>

definition rank :: "string list \<Rightarrow> string \<Rightarrow> nat" where
  "rank order_list p = (case map_of (order_map order_list) p of Some i \<Rightarrow> i | None \<Rightarrow> 0)"

section \<open>Auxiliary notions for the statements\<close>

text \<open>The row that one iteration of the comparator loop builds for a key.\<close>

definition key_row :: "vars \<Rightarrow> vars \<Rightarrow> real \<Rightarrow> real \<Rightarrow> string \<Rightarrow> diff_row option" where
  "key_row d1 d2 abs_tol rel_tol k =
     (case compare_key d1 d2 abs_tol rel_tol
             \<lparr>only_in_1 = 0, only_in_2 = 0, equal_within_tol = 0, different = 0\<rparr> k of
        Inl e \<Rightarrow> None
      | Inr rc \<Rightarrow> Some (fst rc))"

text \<open>A stored record with a given raw token and number, used in concrete inputs.\<close>

definition info :: "string \<Rightarrow> real option \<Rightarrow> var_info" where
  "info s n = \<lparr>value_str = s, value_num = n, lower = ''0'', upper = ''1'',
              vtype = ''Notype'', units = ''-'', source_line = 1\<rparr>"

text \<open>The name under which a line of the CSV file stores a record, if it stores one.\<close>

definition csv_line_name :: "string \<Rightarrow> string option" where
  "csv_line_name raw =
     (if strip raw = [] then None
      else (case csv_fields (strip raw) of
              None \<Rightarrow> None
            | Some (name, rest) \<Rightarrow> if name = [] then None else Some name))"

text \<open>
  The path and the value token of a line of the run file that has the six fields of a
  record.
\<close>

definition txt_fields :: "string \<Rightarrow> (string \<times> string) option" where
  "txt_fields raw =
     (let line = strip raw
      in if line = [] \<or> startswith line ''#'' then None
         else (let parts = map strip (split (CHR '':'') line)
               in if 6 \<le> length parts then Some (parts ! 0, parts ! 1) else None))"

text \<open>The prefix filter of \<open>read_all_values_from_txt\<close> lets the path through.\<close>

definition prefix_passes :: "string option \<Rightarrow> string \<Rightarrow> bool" where
  "prefix_passes path_prefix path_name \<longleftrightarrow>
     (case path_prefix of None \<Rightarrow> True | Some p \<Rightarrow> p = [] \<or> startswith path_name p)"

text \<open>A token that \<open>float\<close> reads as an infinity or a NaN.\<close>

definition nonfinite_token :: "string \<Rightarrow> bool" where
  "nonfinite_token tok \<longleftrightarrow> (case float_of tok of None \<Rightarrow> False | Some v \<Rightarrow> \<not> isfinite v)"

text \<open>
  Every record of a dictionary holds the number read from its own raw token, and the
  token has no surrounding whitespace.
\<close>

definition parsed_ok :: "vars \<Rightarrow> bool" where
  "parsed_ok d \<longleftrightarrow> (\<forall>kr \<in> set d. value_num (snd kr) = to_num (value_str (snd kr))
      \<and> strip (value_str (snd kr)) = value_str (snd kr))"



text \<open>A variable of the reconstruction with a given path, used as a concrete input.\<close>

definition var :: "string \<Rightarrow> variable_data" where
  "var p = \<lparr>path = p, val = ''1'', lower_bound = ''0'', upper_bound = ''2'',
            var_type = ''Notype'', var_units = [], source_file = ''variables.csv''\<rparr>"

section \<open>The comparator: one row per key\<close>

lemma compare_key_defined:
  assumes "k \<in> set (map fst d1) \<union> set (map fst d2)"
  shows "\<exists>row c. compare_key d1 d2 a r cnt k = Inr (row, c) \<and> key_row d1 d2 a r k = Some row
     \<and> variable row = k"
proof -
  from assms have "map_of d1 k \<noteq> None \<or> map_of d2 k \<noteq> None"
    by (auto simp: map_of_eq_None_iff)
  then show ?thesis
    by (auto simp: compare_key_def key_row_def Let_def split: option.splits)
qed

lemma compare_loop_rows:
  assumes "set ks \<subseteq> set (map fst d1) \<union> set (map fst d2)"
  shows "\<exists>c. compare_loop d1 d2 a r ks acc
           = Inr (fst acc @ map (\<lambda>k. the (key_row d1 d2 a r k)) ks, c)"
  using assms
proof (induction ks arbitrary: acc)
  case Nil
  then show ?case by (cases acc) simp
next
  case (Cons k ks)
  from Cons.prems have "k \<in> set (map fst d1) \<union> set (map fst d2)" by simp
  from compare_key_defined [OF this, of a r "snd acc"]
  obtain row c where rc: "compare_key d1 d2 a r (snd acc) k = Inr (row, c)"
    "key_row d1 d2 a r k = Some row" by blast
  from Cons.prems have "set ks \<subseteq> set (map fst d1) \<union> set (map fst d2)" by simp
  from Cons.IH [OF this, of "(fst acc @ [row], c)"] rc show ?case by simp
qed

lemma set_sorted_keys: "set (sorted_keys d1 d2) = set (map fst d1) \<union> set (map fst d2)"
  by (simp add: sorted_keys_def)

lemma distinct_sorted_keys: "distinct (sorted_keys d1 d2)"
  by (simp add: sorted_keys_def)

lemma compare_dicts_rows:
  "\<exists>c. compare_dicts d1 d2 a r
     = Inr (map (\<lambda>k. the (key_row d1 d2 a r k)) (sorted_keys d1 d2), c)"
  using compare_loop_rows [of "sorted_keys d1 d2" d1 d2 a r "([], \<lparr>only_in_1 = 0, only_in_2 = 0, equal_within_tol = 0, different = 0\<rparr>)"]
  by (simp add: compare_dicts_def set_sorted_keys)

lemma key_row_variable:
  "k \<in> set (sorted_keys d1 d2) \<Longrightarrow> variable (the (key_row d1 d2 a r k)) = k"
proof -
  assume "k \<in> set (sorted_keys d1 d2)"
  then have "k \<in> set (map fst d1) \<union> set (map fst d2)" by (simp add: set_sorted_keys)
  from compare_key_defined [OF this, of a r undefined]
  obtain row where "key_row d1 d2 a r k = Some row" "variable row = k" by blast
  then show ?thesis by simp
qed

lemma find_in_map:
  "k \<in> set ks \<Longrightarrow> (\<And>j. j \<in> set ks \<Longrightarrow> variable (f j) = j)
     \<Longrightarrow> find (\<lambda>r. variable r = k) (map f ks) = Some (f k)"
  by (induction ks) auto

lemma row_of_compare_dicts:
  assumes "k \<in> set (map fst d1) \<union> set (map fst d2)"
  shows "\<exists>rows c. compare_dicts d1 d2 a r = Inr (rows, c)
     \<and> row_of k rows = key_row d1 d2 a r k \<and> key_row d1 d2 a r k \<noteq> None"
proof -
  obtain c where c: "compare_dicts d1 d2 a r
     = Inr (map (\<lambda>k. the (key_row d1 d2 a r k)) (sorted_keys d1 d2), c)"
    using compare_dicts_rows by blast
  have k: "k \<in> set (sorted_keys d1 d2)" using assms by (simp add: set_sorted_keys)
  have "find (\<lambda>r. variable r = k) (map (\<lambda>k. the (key_row d1 d2 a r k)) (sorted_keys d1 d2))
     = Some (the (key_row d1 d2 a r k))"
    by (rule find_in_map [OF k]) (rule key_row_variable)
  moreover have "key_row d1 d2 a r k \<noteq> None"
    using compare_key_defined [OF assms, of a r] by auto
  ultimately show ?thesis using c by (auto simp: row_of_def)
qed


lemma key_row_text:
  assumes "map_of d1 k = Some a" "map_of d2 k = Some b"
    "value_num a = None \<or> value_num b = None"
  shows "key_row d1 d2 abs_tol rel_tol k = Some
     \<lparr>variable = k,
      status = (if strip (value_str a) = strip (value_str b)
                then ''equal_within_tol'' else ''different''),
      value1 = value_str a, value2 = value_str b,
      abs_diff = None, rel_diff = None,
      in_tolerance = (if strip (value_str a) = strip (value_str b)
                then ''true'' else ''false''),
      type1 = vtype a, type2 = vtype b, units1 = units a, units2 = units b\<rparr>"
  using assms by (auto simp add: key_row_def compare_key_def Let_def split: option.splits)

lemma map_of_in_keys: "map_of d k = Some a \<Longrightarrow> k \<in> set (map fst d)"
  by (metis map_of_eq_None_iff option.distinct(1) set_map)




lemma compare_dicts_paths:
  "\<exists>rows cnt. compare_dicts d1 d2 abs_tol rel_tol = Inr (rows, cnt)
     \<and> map variable rows = sorted_keys d1 d2"
proof -
  obtain c where c: "compare_dicts d1 d2 abs_tol rel_tol
     = Inr (map (\<lambda>k. the (key_row d1 d2 abs_tol rel_tol k)) (sorted_keys d1 d2), c)"
    using compare_dicts_rows by blast
  have "map variable (map (\<lambda>k. the (key_row d1 d2 abs_tol rel_tol k)) (sorted_keys d1 d2))
      = sorted_keys d1 d2"
    by (simp add: map_idI key_row_variable)
  with c show ?thesis by blast
qed

section \<open>The numeric comparison rule\<close>



section \<open>Equal values\<close>




section \<open>Safety of the relative difference\<close>




section \<open>Record extraction: what a line stores\<close>

lemma rev_dropWhile_rev_take:
  "rev (dropWhile P (rev t)) = take (length t - length (takeWhile P (rev t))) t"
  by (simp add: dropWhile_eq_drop rev_drop)

lemma dropWhile_fix: "xs = [] \<or> \<not> P (hd xs) \<Longrightarrow> dropWhile P xs = xs"
  by (cases xs) auto

lemma strip_idem: "strip (strip s) = strip s"
proof -
  define t where "t = dropWhile is_space s"
  define u where "u = rev (dropWhile is_space (rev t))"
  have t: "t = [] \<or> \<not> is_space (hd t)"
    unfolding t_def using hd_dropWhile [of is_space s] by blast
  have "u = [] \<or> hd u = hd t \<and> t \<noteq> []"
  proof -
    obtain m where m: "u = take m t"
      unfolding u_def rev_dropWhile_rev_take by blast
    show ?thesis unfolding m by (cases m; cases t) auto
  qed
  with t have "u = [] \<or> \<not> is_space (hd u)" by auto
  then have 1: "dropWhile is_space u = u" by (rule dropWhile_fix)
  have 2: "dropWhile is_space (rev u) = rev u"
    unfolding u_def by (simp add: dropWhile_idem)
  show ?thesis
    unfolding strip_def [of "strip s"]
    unfolding strip_def [of s] t_def [symmetric] u_def [symmetric]
    by (simp add: 1 2)
qed

lemma nth_map_strip_idem:
  "i < length xs \<Longrightarrow> strip (map strip xs ! i) = map strip xs ! i"
  by (simp add: strip_idem)

lemma length_pad: "length (pad n parts) = n"
  by (simp add: pad_def)

lemma csv_fields_stripped:
  assumes "csv_fields line = Some (name, v, rest)"
  shows "strip v = v"
  using assms
  by (auto simp: csv_fields_def regular_csv_def Let_def length_pad strip_idem
      split: if_splits option.splits)

lemma csv_step_cases:
  "csv_step d (i, raw) = d \<or>
   (\<exists>name v lo up ty un. csv_line_name raw = Some name
      \<and> csv_fields (strip raw) = Some (name, v, lo, up, ty, un)
      \<and> csv_step d (i, raw) = AList.update name
          \<lparr>value_str = v, value_num = to_num v, lower = lo, upper = up, vtype = ty,
           units = un, source_line = i\<rparr> d)"
  by (auto simp: csv_step_def csv_line_name_def Let_def split: option.splits)

lemma csv_step_other:
  "csv_line_name raw \<noteq> Some name \<Longrightarrow> map_of (csv_step d (i, raw)) name = map_of d name"
  using csv_step_cases [of d i raw] by (auto simp: update_conv')

lemma csv_step_this:
  assumes "strip raw \<noteq> []" "csv_fields (strip raw) = Some (name, v, lo, up, ty, un)" "name \<noteq> []"
  shows "csv_step d (i, raw) = AList.update name
          \<lparr>value_str = v, value_num = to_num v, lower = lo, upper = up, vtype = ty,
           units = un, source_line = i\<rparr> d"
  using assms by (simp add: csv_step_def Let_def)

lemma foldl_csv_step_other:
  "\<forall>ir \<in> set irs. csv_line_name (snd ir) \<noteq> Some name
     \<Longrightarrow> map_of (foldl csv_step d irs) name = map_of d name"
proof (induction irs arbitrary: d)
  case Nil
  then show ?case by simp
next
  case (Cons ir irs)
  obtain i raw where ir: "ir = (i, raw)" by (cases ir)
  from Cons.prems ir have "csv_line_name raw \<noteq> Some name" by simp
  then have "map_of (csv_step d ir) name = map_of d name"
    unfolding ir by (rule csv_step_other)
  moreover from Cons.prems have "\<forall>ir \<in> set irs. csv_line_name (snd ir) \<noteq> Some name" by simp
  ultimately show ?case using Cons.IH [of "csv_step d ir"] by simp
qed

lemma set_update_subset: "set (AList.update k v al) \<subseteq> insert (k, v) (set al)"
  by (induction al) auto

lemma parsed_ok_step: "parsed_ok d \<Longrightarrow> parsed_ok (csv_step d (i, raw))"
proof -
  assume d: "parsed_ok d"
  from csv_step_cases [of d i raw] show ?thesis
  proof
    assume "csv_step d (i, raw) = d"
    with d show ?thesis by simp
  next
    assume "\<exists>name v lo up ty un. csv_line_name raw = Some name
      \<and> csv_fields (strip raw) = Some (name, v, lo, up, ty, un)
      \<and> csv_step d (i, raw) = AList.update name
          \<lparr>value_str = v, value_num = to_num v, lower = lo, upper = up, vtype = ty,
           units = un, source_line = i\<rparr> d"
    then obtain name v lo up ty un where
      f: "csv_fields (strip raw) = Some (name, v, lo, up, ty, un)" and
      s: "csv_step d (i, raw) = AList.update name
          \<lparr>value_str = v, value_num = to_num v, lower = lo, upper = up, vtype = ty,
           units = un, source_line = i\<rparr> d" by blast
    from f have "strip v = v" by (rule csv_fields_stripped)
    with d show ?thesis
      unfolding s parsed_ok_def using set_update_subset by fastforce
  qed
qed

lemma parsed_ok_foldl: "parsed_ok d \<Longrightarrow> parsed_ok (foldl csv_step d irs)"
proof (induction irs arbitrary: d)
  case Nil
  then show ?case by simp
next
  case (Cons ir irs)
  then show ?case using parsed_ok_step [of d "fst ir" "snd ir"] by simp
qed

lemma parsed_ok_parse:
  assumes "parse_variables_csv (Some lines) = Inr d" "map_of d k = Some a"
  shows "value_num a = to_num (value_str a)" "strip (value_str a) = value_str a"
proof -
  have "parsed_ok d"
    using assms(1) parsed_ok_foldl [of "[]" "enumerate1 lines"]
    by (auto simp: parse_variables_csv_def parsed_ok_def)
  moreover from assms(2) have "(k, a) \<in> set d" by (rule map_of_SomeD)
  ultimately show "value_num a = to_num (value_str a)" "strip (value_str a) = value_str a"
    by (auto simp: parsed_ok_def)
qed

lemma to_num_nonfinite: "nonfinite_token tok \<Longrightarrow> to_num tok = None"
  by (cases "float_of tok"; cases "the (float_of tok)")
     (auto simp: nonfinite_token_def to_num_def)

lemma enumerate1_split:
  "enumerate1 (pre @ raw # post)
   = enumerate1 pre @ (Suc (length pre), raw) # zip [length pre + 2 ..< length pre + 2 + length post] post"
proof -
  define A where "A = [1 ..< Suc (length pre)]"
  define B where "B = [length pre + 2 ..< length pre + 2 + length post]"
  have "[1 ..< Suc (length pre) + Suc (length post)]
      = A @ [Suc (length pre) ..< Suc (length pre) + Suc (length post)]"
    unfolding A_def by (rule upt_add_eq_append) simp
  moreover have "[Suc (length pre) ..< Suc (length pre) + Suc (length post)] = Suc (length pre) # B"
    unfolding B_def by (simp add: upt_conv_Cons del: upt_Suc)
  moreover have "Suc (length (pre @ raw # post)) = Suc (length pre) + Suc (length post)"
    by simp
  ultimately have "[1 ..< Suc (length (pre @ raw # post))] = A @ Suc (length pre) # B"
    by (simp only:)
  moreover have "length A = length pre" by (simp add: A_def del: upt_Suc)
  ultimately have "enumerate1 (pre @ raw # post) = zip A pre @ (Suc (length pre), raw) # zip B post"
    unfolding enumerate1_def by (simp only: zip_append zip_Cons_Cons)
  then show ?thesis by (simp only: A_def B_def enumerate1_def)
qed

lemma csv_record_kept:
  assumes "strip raw \<noteq> []" and "csv_fields (strip raw) = Some (name, tok, lo, up, ty, un)"
    and "name \<noteq> []" and "\<forall>r \<in> set post. csv_line_name r \<noteq> Some name"
  shows "\<exists>d. parse_variables_csv (Some (pre @ raw # post)) = Inr d
    \<and> map_of d name = Some \<lparr>value_str = tok, value_num = to_num tok, lower = lo, upper = up,
         vtype = ty, units = un, source_line = Suc (length pre)\<rparr>"
proof -
  let ?rest = "zip [length pre + 2 ..< length pre + 2 + length post] post"
  let ?d0 = "foldl csv_step [] (enumerate1 pre)"
  have "\<forall>ir \<in> set ?rest. csv_line_name (snd ir) \<noteq> Some name"
    using assms(4) by (auto dest: set_zip_rightD)
  then have "map_of (foldl csv_step (csv_step ?d0 (Suc (length pre), raw)) ?rest) name
      = map_of (csv_step ?d0 (Suc (length pre), raw)) name"
    by (rule foldl_csv_step_other)
  also have "\<dots> = Some \<lparr>value_str = tok, value_num = to_num tok, lower = lo, upper = up,
         vtype = ty, units = un, source_line = Suc (length pre)\<rparr>"
    by (simp add: csv_step_this [OF assms(1-3)] update_conv')
  finally show ?thesis
    by (simp add: parse_variables_csv_def enumerate1_split)
qed

lemma to_num_unparseable: "float_of tok = None \<Longrightarrow> to_num tok = None"
  by (simp add: to_num_def)

lemma key_row_text_parsed:
  assumes "map_of d1 k = Some a" and "map_of d2 k = Some b"
    and "value_num a = None \<or> value_num b = None"
    and "strip (value_str a) = value_str a" and "strip (value_str b) = value_str b"
  shows "\<exists>rows cnt row.
      compare_dicts d1 d2 abs_tol rel_tol = Inr (rows, cnt) \<and> row_of k rows = Some row
    \<and> value1 row = value_str a \<and> value2 row = value_str b
    \<and> abs_diff row = None \<and> rel_diff row = None
    \<and> status row = (if value_str a = value_str b then ''equal_within_tol'' else ''different'')
    \<and> in_tolerance row = (if value_str a = value_str b then ''true'' else ''false'')"
proof -
  have "k \<in> set (map fst d1) \<union> set (map fst d2)"
    using assms(1) by (simp add: map_of_in_keys del: set_map)
  from row_of_compare_dicts [OF this, of abs_tol rel_tol]
  obtain rows c where rc: "compare_dicts d1 d2 abs_tol rel_tol = Inr (rows, c)"
    "row_of k rows = key_row d1 d2 abs_tol rel_tol k" by blast
  from key_row_text [OF assms(1-3), of abs_tol rel_tol] rc assms(4,5)
  show ?thesis by simp
qed

section \<open>Non-finite values are compared as text\<close>

text \<open>
  Claim C10. A line of the CSV file whose value token reads as an infinity or a NaN is
  stored under its name with the raw token and no number. When the other file has the
  same name, the comparator builds the row of that name without differences and decides
  its status by exact equality of the two raw tokens, whatever the tolerances, on
  whichever side the non-finite token stands.
\<close>

theorem nonfinite_value_compared_as_text:
  assumes "strip raw \<noteq> []" and "csv_fields (strip raw) = Some (k, tok, lo, up, ty, un)"
    and "k \<noteq> []" and "nonfinite_token tok"
    and "\<forall>r \<in> set post. csv_line_name r \<noteq> Some k"
    and "parse_variables_csv (Some other_lines) = Inr d2" and "map_of d2 k = Some b"
  shows "\<exists>d1 a. parse_variables_csv (Some (pre @ raw # post)) = Inr d1
    \<and> map_of d1 k = Some a \<and> value_str a = tok \<and> value_num a = None
    \<and> (\<exists>rows cnt row.
          compare_dicts d1 d2 abs_tol rel_tol = Inr (rows, cnt) \<and> row_of k rows = Some row
        \<and> value1 row = tok \<and> value2 row = value_str b
        \<and> abs_diff row = None \<and> rel_diff row = None
        \<and> status row = (if tok = value_str b then ''equal_within_tol'' else ''different'')
        \<and> in_tolerance row = (if tok = value_str b then ''true'' else ''false''))
    \<and> (\<exists>rows cnt row.
          compare_dicts d2 d1 abs_tol rel_tol = Inr (rows, cnt) \<and> row_of k rows = Some row
        \<and> value1 row = value_str b \<and> value2 row = tok
        \<and> abs_diff row = None \<and> rel_diff row = None
        \<and> status row = (if value_str b = tok then ''equal_within_tol'' else ''different'')
        \<and> in_tolerance row = (if value_str b = tok then ''true'' else ''false''))"
proof -
  let ?a = "\<lparr>value_str = tok, value_num = to_num tok, lower = lo, upper = up,
         vtype = ty, units = un, source_line = Suc (length pre)\<rparr>"
  from csv_record_kept [OF assms(1-3,5), of pre]
  obtain d1 where d1: "parse_variables_csv (Some (pre @ raw # post)) = Inr d1"
    "map_of d1 k = Some ?a" by blast
  have num: "value_num ?a = None" using assms(4) by (simp add: to_num_nonfinite)
  have sa: "strip (value_str ?a) = value_str ?a" by (rule parsed_ok_parse(2) [OF d1])
  have sb: "strip (value_str b) = value_str b" by (rule parsed_ok_parse(2) [OF assms(6,7)])
  have n1: "value_num ?a = None \<or> value_num b = None" using num by simp
  have n2: "value_num b = None \<or> value_num ?a = None" using num by simp
  from key_row_text_parsed [OF d1(2) assms(7) n1 sa sb, of abs_tol rel_tol]
    key_row_text_parsed [OF assms(7) d1(2) n2 sb sa, of abs_tol rel_tol] d1 num
  show ?thesis by (intro exI [of _ d1] exI [of _ ?a]) simp
qed

lemma ex_parse_inf:
  "parse_variables_csv (Some [''y,1'', ''x,inf,0,1,T,u''])
   = Inr [(''y'', \<lparr>value_str = ''1'', value_num = Some 1, lower = [], upper = [], vtype = [],
                  units = [], source_line = 1\<rparr>),
          (''x'', \<lparr>value_str = ''inf'', value_num = None, lower = ''0'', upper = ''1'',
                  vtype = ''T'', units = ''u'', source_line = 2\<rparr>)]"
  by code_simp

lemma ex_parse_infinity:
  "parse_variables_csv (Some [''x,Infinity,0,1,T,u''])
   = Inr [(''x'', \<lparr>value_str = ''Infinity'', value_num = None, lower = ''0'', upper = ''1'',
                  vtype = ''T'', units = ''u'', source_line = 1\<rparr>)]"
  by code_simp

lemma ex_fields_inf:
  "strip ''x,inf,0,1,T,u'' \<noteq> []
   \<and> csv_fields (strip ''x,inf,0,1,T,u'') = Some (''x'', ''inf'', ''0'', ''1'', ''T'', ''u'')
   \<and> nonfinite_token ''inf''"
  by code_simp

theorem nonfinite_value_compared_as_text_witness:
  "strip ''x,inf,0,1,T,u'' \<noteq> []
   \<and> csv_fields (strip ''x,inf,0,1,T,u'') = Some (''x'', ''inf'', ''0'', ''1'', ''T'', ''u'')
   \<and> ''x'' \<noteq> [] \<and> nonfinite_token ''inf''
   \<and> (\<exists>d1 d2 a b. parse_variables_csv (Some [''y,1'', ''x,inf,0,1,T,u'']) = Inr d1
        \<and> parse_variables_csv (Some [''x,Infinity,0,1,T,u'']) = Inr d2
        \<and> map_of d1 ''x'' = Some a \<and> map_of d2 ''x'' = Some b
        \<and> value_str a = ''inf'' \<and> value_num a = None
        \<and> (\<exists>rows cnt row.
              compare_dicts d1 d2 (1 / 10 ^ 12) (1 / 10 ^ 6) = Inr (rows, cnt)
            \<and> row_of ''x'' rows = Some row
            \<and> value1 row = ''inf'' \<and> value2 row = ''Infinity''
            \<and> abs_diff row = None \<and> rel_diff row = None
            \<and> status row = ''different'' \<and> in_tolerance row = ''false''))"
  using nonfinite_value_compared_as_text [of "''x,inf,0,1,T,u''" "''x''" "''inf''" "''0''" "''1''"
      "''T''" "''u''" "[]" "[''x,Infinity,0,1,T,u'']"
      "[(''x'', \<lparr>value_str = ''Infinity'', value_num = None, lower = ''0'', upper = ''1'',
                  vtype = ''T'', units = ''u'', source_line = 1\<rparr>)]"
      "\<lparr>value_str = ''Infinity'', value_num = None, lower = ''0'', upper = ''1'',
                  vtype = ''T'', units = ''u'', source_line = 1\<rparr>"
      "[''y,1'']" "1 / 10 ^ 12" "1 / 10 ^ 6"]
    ex_fields_inf ex_parse_infinity ex_parse_inf
  by auto

section \<open>The run file reader: what a line stores\<close>

lemma txt_step_eq:
  "txt_step pfx (d, out) raw =
     (case txt_fields raw of
        None \<Rightarrow> (d, out)
      | Some (pn, tok) \<Rightarrow>
          if \<not> prefix_passes pfx pn then (d, out)
          else (case float_of tok of
                  Some v \<Rightarrow> (AList.update pn v d, out)
                | None \<Rightarrow> (d, out @ [convert_warning tok pn])))"
  by (auto simp: txt_step_def txt_fields_def prefix_passes_def Let_def split: option.splits)

lemma txt_step_absent:
  assumes "\<forall>t. txt_fields raw \<noteq> Some (pn, t)"
  shows "map_of (fst (txt_step pfx acc raw)) pn = map_of (fst acc) pn"
proof (cases acc)
  case (Pair d out)
  show ?thesis
    unfolding Pair txt_step_eq using assms
    by (auto simp: update_conv' split: option.splits)
qed

lemma txt_step_printed: "set (snd acc) \<subseteq> set (snd (txt_step pfx acc raw))"
proof (cases acc)
  case (Pair d out)
  show ?thesis
    unfolding Pair txt_step_eq by (auto split: option.splits)
qed

lemma foldl_txt_absent:
  "\<forall>r \<in> set rs. \<forall>t. txt_fields r \<noteq> Some (pn, t)
     \<Longrightarrow> map_of (fst (foldl (txt_step pfx) acc rs)) pn = map_of (fst acc) pn"
proof (induction rs arbitrary: acc)
  case Nil
  then show ?case by simp
next
  case (Cons r rs)
  from Cons.prems have "\<forall>t. txt_fields r \<noteq> Some (pn, t)" by simp
  then have "map_of (fst (txt_step pfx acc r)) pn = map_of (fst acc) pn"
    by (rule txt_step_absent)
  moreover from Cons.prems have "\<forall>r \<in> set rs. \<forall>t. txt_fields r \<noteq> Some (pn, t)" by simp
  ultimately show ?case using Cons.IH [of "txt_step pfx acc r"] by simp
qed

lemma foldl_txt_printed: "set (snd acc) \<subseteq> set (snd (foldl (txt_step pfx) acc rs))"
proof (induction rs arbitrary: acc)
  case Nil
  then show ?case by simp
next
  case (Cons r rs)
  from txt_step_printed [of acc pfx r] Cons.IH [of "txt_step pfx acc r"]
  show ?case by auto
qed

lemma txt_record_dropped:
  assumes "txt_fields raw = Some (pn, tok)" and "prefix_passes pfx pn"
    and "float_of tok = None"
    and "\<forall>r \<in> set (pre @ post). \<forall>t. txt_fields r \<noteq> Some (pn, t)"
  shows "map_of (fst (read_all_values_from_txt fp (Some (pre @ raw # post)) pfx)) pn = None"
    and "convert_warning tok pn \<in> set (snd (read_all_values_from_txt fp (Some (pre @ raw # post)) pfx))"
proof -
  let ?s0 = "foldl (txt_step pfx) ([], []) pre"
  obtain d out where s0: "?s0 = (d, out)" by (cases ?s0)
  have pre: "\<forall>r \<in> set pre. \<forall>t. txt_fields r \<noteq> Some (pn, t)"
    and post: "\<forall>r \<in> set post. \<forall>t. txt_fields r \<noteq> Some (pn, t)"
    using assms(4) by auto
  have d: "map_of d pn = None"
    using foldl_txt_absent [OF pre, of pfx "([], [])"] s0 by simp
  have step: "txt_step pfx (d, out) raw = (d, out @ [convert_warning tok pn])"
    unfolding txt_step_eq using assms(1-3) by simp
  have all: "read_all_values_from_txt fp (Some (pre @ raw # post)) pfx
      = foldl (txt_step pfx) (d, out @ [convert_warning tok pn]) post"
    by (simp add: read_all_values_from_txt_def s0 step)
  show "map_of (fst (read_all_values_from_txt fp (Some (pre @ raw # post)) pfx)) pn = None"
    unfolding all using foldl_txt_absent [OF post, of pfx "(d, out @ [convert_warning tok pn])"] d
    by simp
  show "convert_warning tok pn \<in> set (snd (read_all_values_from_txt fp (Some (pre @ raw # post)) pfx))"
    unfolding all using foldl_txt_printed [of "(d, out @ [convert_warning tok pn])" pfx post]
    by auto
qed

section \<open>Values that do not parse\<close>

text \<open>
  Claim C4, as amended. A line of the CSV file whose value token does not parse as a
  number is kept by \<open>parse_variables_csv\<close>: the mapping returned for the whole file holds
  under its name (unless a later line stores the same name) the record with the raw token,
  no number and the other fields of the line; the function prints nothing. A record line of
  the run file whose value token does not parse makes \<open>read_all_values_from_txt\<close> print its
  warning and go on, and the path is absent from the mapping returned for the whole file
  unless another line stores it.
\<close>

theorem unparseable_value_handling:
  "(strip raw \<noteq> [] \<and> csv_fields (strip raw) = Some (name, tok, lo, up, ty, un) \<and> name \<noteq> []
      \<and> float_of tok = None \<and> (\<forall>r \<in> set post. csv_line_name r \<noteq> Some name)
    \<longrightarrow> (\<exists>d. parse_variables_csv (Some (pre @ raw # post)) = Inr d
          \<and> map_of d name = Some \<lparr>value_str = tok, value_num = None, lower = lo, upper = up,
                vtype = ty, units = un, source_line = Suc (length pre)\<rparr>))
   \<and> (txt_fields raw' = Some (pn, tok') \<and> prefix_passes pfx pn \<and> float_of tok' = None
      \<and> (\<forall>r \<in> set (pre' @ post'). \<forall>t. txt_fields r \<noteq> Some (pn, t))
    \<longrightarrow> map_of (fst (read_all_values_from_txt fp (Some (pre' @ raw' # post')) pfx)) pn = None
        \<and> convert_warning tok' pn
            \<in> set (snd (read_all_values_from_txt fp (Some (pre' @ raw' # post')) pfx)))"
proof (intro conjI impI)
  assume a: "strip raw \<noteq> [] \<and> csv_fields (strip raw) = Some (name, tok, lo, up, ty, un) \<and> name \<noteq> []
      \<and> float_of tok = None \<and> (\<forall>r \<in> set post. csv_line_name r \<noteq> Some name)"
  then have "to_num tok = None" by (simp add: to_num_unparseable)
  with a csv_record_kept [of raw name tok lo up ty un post pre]
  show "\<exists>d. parse_variables_csv (Some (pre @ raw # post)) = Inr d
          \<and> map_of d name = Some \<lparr>value_str = tok, value_num = None, lower = lo, upper = up,
                vtype = ty, units = un, source_line = Suc (length pre)\<rparr>"
    by simp
next
  assume b: "txt_fields raw' = Some (pn, tok') \<and> prefix_passes pfx pn \<and> float_of tok' = None
      \<and> (\<forall>r \<in> set (pre' @ post'). \<forall>t. txt_fields r \<noteq> Some (pn, t))"
  then show "map_of (fst (read_all_values_from_txt fp (Some (pre' @ raw' # post')) pfx)) pn = None"
    using txt_record_dropped(1) [of raw' pn tok' pfx pre' post' fp] by blast
next
  assume b: "txt_fields raw' = Some (pn, tok') \<and> prefix_passes pfx pn \<and> float_of tok' = None
      \<and> (\<forall>r \<in> set (pre' @ post'). \<forall>t. txt_fields r \<noteq> Some (pn, t))"
  then show "convert_warning tok' pn
      \<in> set (snd (read_all_values_from_txt fp (Some (pre' @ raw' # post')) pfx))"
    using txt_record_dropped(2) [of raw' pn tok' pfx pre' post' fp] by blast
qed

lemma ex_csv_nanish:
  "strip ''x,NaNish,0,1,T,u'' \<noteq> []
   \<and> csv_fields (strip ''x,NaNish,0,1,T,u'') = Some (''x'', ''NaNish'', ''0'', ''1'', ''T'', ''u'')
   \<and> float_of ''NaNish'' = None
   \<and> csv_line_name ''y,2'' \<noteq> Some ''x''"
  by code_simp

lemma ex_txt_nanish:
  "txt_fields ''A.b : NaNish : 0 : 1 : Notype : -'' = Some (''A.b'', ''NaNish'')
   \<and> prefix_passes None ''A.b''
   \<and> (\<forall>t. txt_fields ''A.c : 2.5 : 0 : 1 : Notype : -'' \<noteq> Some (''A.b'', t))"
  by (simp add: txt_fields_def strip_def is_space_def prefix_passes_def)

theorem unparseable_value_handling_witness:
  "strip ''x,NaNish,0,1,T,u'' \<noteq> []
   \<and> csv_fields (strip ''x,NaNish,0,1,T,u'') = Some (''x'', ''NaNish'', ''0'', ''1'', ''T'', ''u'')
   \<and> ''x'' \<noteq> [] \<and> float_of ''NaNish'' = None
   \<and> csv_line_name ''y,2'' \<noteq> Some ''x''
   \<and> (\<exists>d. parse_variables_csv (Some ([''z,1''] @ ''x,NaNish,0,1,T,u'' # [''y,2''])) = Inr d
        \<and> map_of d ''x'' = Some \<lparr>value_str = ''NaNish'', value_num = None, lower = ''0'',
              upper = ''1'', vtype = ''T'', units = ''u'', source_line = 2\<rparr>)
   \<and> txt_fields ''A.b : NaNish : 0 : 1 : Notype : -'' = Some (''A.b'', ''NaNish'')
   \<and> prefix_passes None ''A.b''
   \<and> map_of (fst (read_all_values_from_txt ''run.txt''
         (Some ([] @ ''A.b : NaNish : 0 : 1 : Notype : -'' # [''A.c : 2.5 : 0 : 1 : Notype : -'']))
         None)) ''A.b'' = None
   \<and> convert_warning ''NaNish'' ''A.b''
        \<in> set (snd (read_all_values_from_txt ''run.txt''
         (Some ([] @ ''A.b : NaNish : 0 : 1 : Notype : -'' # [''A.c : 2.5 : 0 : 1 : Notype : -'']))
         None))"
  using unparseable_value_handling [where raw = "''x,NaNish,0,1,T,u''" and name = "''x''"
      and tok = "''NaNish''" and lo = "''0''" and up = "''1''" and ty = "''T''" and un = "''u''"
      and post = "[''y,2'']" and pre = "[''z,1'']"
      and raw' = "''A.b : NaNish : 0 : 1 : Notype : -''" and pn = "''A.b''"
      and tok' = "''NaNish''" and pfx = None and pre' = "[]"
      and post' = "[''A.c : 2.5 : 0 : 1 : Notype : -'']" and fp = "''run.txt''"]
    ex_csv_nanish ex_txt_nanish
  by (simp add: numeral_2_eq_2)

text \<open>
  The reader of run files drops the record of the line whose value is \<open>NaNish\<close>: only the
  warning remains of it.
\<close>

theorem unparseable_value_dropped_by_txt_reader:
  "read_all_values_from_txt ''run.txt''
     (Some [''A.b : NaNish : 0 : 1 : Notype : -'', ''A.c : 2.5 : 0 : 1 : Notype : -'']) None
   = ([(''A.c'', Fin (5 / 2))], [convert_warning ''NaNish'' ''A.b''])"
  by code_simp

section \<open>Extraction of a stage line\<close>

text \<open>
  Claim C6, as amended. For the line
  \<^verbatim>\<open>Plant.Absorber.Stage(3).trans_prop.loading_CO2 : 0.245 : 0 : 1 : Notype : mol/mol\<close>
  the stage extractor yields the stage key \<open>3\<close> with the value \<open>0.245\<close> for \<open>loading_co2\<close>, and
  no warning.
\<close>

theorem stage_line_extracted:
  "extract_stage_data
     (Some [''Plant.Absorber.Stage(3).trans_prop.loading_CO2 : 0.245 : 0 : 1 : Notype : mol/mol''])
   = ([(3, [(''loading_co2'', Fin (245 / 1000))])], [])"
  by code_simp

text \<open>
  The line of the claim has no \<open>.trans_prop\<close> between the stage and the variable, so none
  of the three patterns matches it and nothing is extracted.
\<close>

theorem stage_line_without_trans_prop:
  "extract_stage_data
     (Some [''Plant.Absorber.Stage(3).loading_CO2 : 0.245 : 0 : 1 : Notype : mol/mol''])
   = ([], [])"
  by code_simp

section \<open>The flowsheet comparison: which keys are merged\<close>

lemma mset_sort_reverse: "mset (sort_reverse f xs) = mset xs"
  by (simp add: sort_reverse_def)

lemma set_sort_reverse: "set (sort_reverse f xs) = set xs"
  by (simp add: sort_reverse_def)

lemma comp_name_pre_comp: "comp_name (pre_comp (n, v1, v2, note)) = n"
  by (simp add: comp_name_def pre_comp_def split: prod.splits)

lemma comp_name_key_comp: "comp_name (key_comp d1 d2 q) = q"
  by (simp add: comp_name_def key_comp_def Let_def split: prod.splits)

lemma map_comp_name_key_comp: "map comp_name (map (key_comp d1 d2) qs) = qs"
  by (induction qs) (simp_all add: comp_name_key_comp)

lemma subscript_key:
  "k \<in> set (map fst d) \<Longrightarrow> \<exists>v. subscript d k = Inr v \<and> map_of d k = Some v"
  by (cases "map_of d k") (auto simp: subscript_def map_of_eq_None_iff)

lemma isclose_default: "\<exists>c. isclose a b (1 / 10 ^ 8) (1 / 10 ^ 8) = Inr c"
  by (simp add: isclose_def)

lemma sum_matches_cases:
  assumes "set abs_a \<subseteq> set (map fst da)" and "set abs_b \<subseteq> set (map fst db)"
  shows "sum_matches da abs_a db abs_b (1 / 10 ^ 8) = Inr None
    \<or> (\<exists>k1 k2 k x y z. abs_a = [k1, k2] \<and> abs_b = [k]
          \<and> map_of da k1 = Some x \<and> map_of da k2 = Some y \<and> map_of db k = Some z
          \<and> isclose (x + y) z (1 / 10 ^ 8) (1 / 10 ^ 8) = Inr True
          \<and> sum_matches da abs_a db abs_b (1 / 10 ^ 8) = Inr (Some (k, x + y, z)))"
proof (cases "length abs_a = 2 \<and> length abs_b = 1")
  case False
  then show ?thesis by (auto simp: sum_matches_def)
next
  case True
  then obtain k1 k2 k where ab: "abs_a = [k1, k2]" "abs_b = [k]"
    by (auto simp: length_Suc_conv numeral_2_eq_2)
  from assms ab obtain x y z where
    x: "subscript da k1 = Inr x" "map_of da k1 = Some x" and
    y: "subscript da k2 = Inr y" "map_of da k2 = Some y" and
    z: "subscript db k = Inr z" "map_of db k = Some z"
    using subscript_key [of k1 da] subscript_key [of k2 da] subscript_key [of k db] by auto
  obtain c where c: "isclose (x + y) z (1 / 10 ^ 8) (1 / 10 ^ 8) = Inr c"
    using isclose_default by blast
  show ?thesis
    using x y z c by (cases c) (simp_all add: sum_matches_def ab Let_def)
qed



lemma match_cases:
  "match_and_sum_absorbents d1 d2 (1 / 10 ^ 8) = Inr ([], [], [])
   \<or> (\<exists>k1 k2 k v1 v2 note. k1 \<in> set (map fst d1) \<and> k2 \<in> set (map fst d1) \<and> k \<in> set (map fst d2)
        \<and> match_and_sum_absorbents d1 d2 (1 / 10 ^ 8) = Inr ([(k, v1, v2, note)], [k1, k2], [k]))
   \<or> (\<exists>k1 k2 k v1 v2 note. k1 \<in> set (map fst d2) \<and> k2 \<in> set (map fst d2) \<and> k \<in> set (map fst d1)
        \<and> match_and_sum_absorbents d1 d2 (1 / 10 ^ 8) = Inr ([(k, v1, v2, note)], [k], [k1, k2]))"
proof -
  let ?a1 = "filter is_absorbent_key (map fst d1)"
  let ?a2 = "filter is_absorbent_key (map fst d2)"
  have s1: "set ?a1 \<subseteq> set (map fst d1)" and s2: "set ?a2 \<subseteq> set (map fst d2)" by auto
  from sum_matches_cases [OF s1 s2] sum_matches_cases [OF s2 s1]
  show ?thesis
  proof (elim disjE exE conjE)
    assume "sum_matches d1 ?a1 d2 ?a2 (1 / 10 ^ 8) = Inr None"
      "sum_matches d2 ?a2 d1 ?a1 (1 / 10 ^ 8) = Inr None"
    then show ?thesis by (simp add: match_and_sum_absorbents_def Let_def)
  next
    fix k1 k2 k x y z
    assume a: "sum_matches d1 ?a1 d2 ?a2 (1 / 10 ^ 8) = Inr None"
      "?a2 = [k1, k2]" "?a1 = [k]"
      "sum_matches d2 ?a2 d1 ?a1 (1 / 10 ^ 8) = Inr (Some (k, x + y, z))"
    from a(2) s2 have "k1 \<in> set (map fst d2)" "k2 \<in> set (map fst d2)" by auto
    moreover from a(3) s1 have "k \<in> set (map fst d1)" by auto
    ultimately show ?thesis
      using a by (auto simp: match_and_sum_absorbents_def Let_def simp del: set_map)
  next
    fix k1 k2 k x y z
    assume a: "?a1 = [k1, k2]" "?a2 = [k]"
      "sum_matches d1 ?a1 d2 ?a2 (1 / 10 ^ 8) = Inr (Some (k, x + y, z))"
      "sum_matches d2 ?a2 d1 ?a1 (1 / 10 ^ 8) = Inr None"
    from a(1) s1 have "k1 \<in> set (map fst d1)" "k2 \<in> set (map fst d1)" by auto
    moreover from a(2) s2 have "k \<in> set (map fst d2)" by auto
    ultimately show ?thesis
      using a by (auto simp: match_and_sum_absorbents_def Let_def simp del: set_map)
  next
    fix k1 k2 k x y z k1' k2' k' x' y' z'
    assume "?a1 = [k1, k2]" "?a1 = [k']"
    then show ?thesis by simp
  qed
qed

lemma build_names:
  assumes "match_and_sum_absorbents d1 d2 (1 / 10 ^ 8) = Inr (pre, c1, c2)"
  shows "\<exists>comps. build_comparisons key_order d1 d2 = Inr comps
    \<and> mset comps = mset (map pre_comp pre
         @ map (key_comp d1 d2) (filter (\<lambda>q. \<not> (q \<in> set c1 \<or> q \<in> set c2)) key_order))
    \<and> mset (map comp_name comps)
        = mset (map comp_name (map pre_comp pre)
            @ filter (\<lambda>q. \<not> (q \<in> set c1 \<or> q \<in> set c2)) key_order)"
proof -
  let ?l = "map pre_comp pre
         @ map (key_comp d1 d2) (filter (\<lambda>q. \<not> (q \<in> set c1 \<or> q \<in> set c2)) key_order)"
  have b: "build_comparisons key_order d1 d2 = Inr (sort_reverse pct_key ?l)"
    using assms by (simp add: build_comparisons_def)
  have "mset (map comp_name (sort_reverse pct_key ?l)) = mset (map comp_name ?l)"
    by (simp only: mset_map mset_sort_reverse)
  moreover have "map comp_name ?l = map comp_name (map pre_comp pre)
            @ filter (\<lambda>q. \<not> (q \<in> set c1 \<or> q \<in> set c2)) key_order"
    using map_comp_name_key_comp [of d1 d2] by simp
  ultimately show ?thesis
    unfolding b by (simp only: mset_sort_reverse sum.inject simp_thms ex_simps)
qed

section \<open>Two absorbents against one\<close>






section \<open>The paths of the comparison rows\<close>

text \<open>
  Claim C2, as amended. The rows of \<open>compare_dicts\<close> report exactly the keys of the two
  mappings, each key in one row. The comparisons of \<open>build_comparisons\<close> have pairwise
  different names, and these names are the keys of the two mappings without the keys that
  a fired two-against-one match of absorbents has consumed, together with the key of the
  merged entry, which is one of the consumed keys; when no match fires nothing is consumed
  and the names are exactly the keys of the two mappings.
\<close>

theorem comparison_paths:
  assumes "distinct key_order"
    and "set key_order = set (map fst f1) \<union> set (map fst f2)"
  shows "(\<exists>rows cnt. compare_dicts d1 d2 abs_tol rel_tol = Inr (rows, cnt)
           \<and> distinct (map variable rows)
           \<and> set (map variable rows) = set (map fst d1) \<union> set (map fst d2))
       \<and> (\<exists>pre consumed1 consumed2 comps.
             match_and_sum_absorbents f1 f2 (1 / 10 ^ 8) = Inr (pre, consumed1, consumed2)
           \<and> build_comparisons key_order f1 f2 = Inr comps
           \<and> distinct (map comp_name comps)
           \<and> set (map comp_name comps)
               = (set (map fst f1) \<union> set (map fst f2)) - (set consumed1 \<union> set consumed2)
                 \<union> set (map fst pre)
           \<and> set (map fst pre) \<subseteq> set consumed1 \<union> set consumed2
           \<and> set consumed1 \<union> set consumed2 \<subseteq> set (map fst f1) \<union> set (map fst f2))"
proof
  from compare_dicts_paths [of d1 d2 abs_tol rel_tol]
  obtain rows cnt where r: "compare_dicts d1 d2 abs_tol rel_tol = Inr (rows, cnt)"
    "map variable rows = sorted_keys d1 d2" by blast
  have "distinct (map variable rows)"
    unfolding r(2) by (rule distinct_sorted_keys)
  moreover have "set (map variable rows) = set (map fst d1) \<union> set (map fst d2)"
    unfolding r(2) by (rule set_sorted_keys)
  ultimately show "\<exists>rows cnt. compare_dicts d1 d2 abs_tol rel_tol = Inr (rows, cnt)
           \<and> distinct (map variable rows)
           \<and> set (map variable rows) = set (map fst d1) \<union> set (map fst d2)"
    using r(1) by blast
next
  let ?K = "set (map fst f1) \<union> set (map fst f2)"
  have main: "\<exists>comps. build_comparisons key_order f1 f2 = Inr comps
           \<and> distinct (map comp_name comps)
           \<and> set (map comp_name comps) = ?K - (set c1 \<union> set c2) \<union> set (map fst pre)"
    if m: "match_and_sum_absorbents f1 f2 (1 / 10 ^ 8) = Inr (pre, c1, c2)"
      and p: "pre = [] \<or> (\<exists>k v1 v2 note. pre = [(k, v1, v2, note)] \<and> k \<in> set c1 \<union> set c2)"
    for pre c1 c2
  proof -
    let ?rest = "filter (\<lambda>q. \<not> (q \<in> set c1 \<or> q \<in> set c2)) key_order"
    from build_names [OF m, of key_order]
    obtain comps where c: "build_comparisons key_order f1 f2 = Inr comps"
      "mset (map comp_name comps) = mset (map comp_name (map pre_comp pre) @ ?rest)"
      by blast
    have names: "map comp_name (map pre_comp pre) = map fst pre"
      using p by (auto simp: comp_name_pre_comp)
    have c': "mset (map comp_name comps) = mset (map fst pre @ ?rest)"
      using c(2) by (simp only: names)
    have "distinct (map fst pre @ ?rest)"
      using p assms(1) by auto
    then have "distinct (map comp_name comps)"
      by (simp only: mset_eq_imp_distinct_iff [OF c'])
    moreover have "set (map comp_name comps) = set (map fst pre @ ?rest)"
      by (rule mset_eq_setD [OF c'])
    then have "set (map comp_name comps) = ?K - (set c1 \<union> set c2) \<union> set (map fst pre)"
      using assms(2) by auto
    ultimately show ?thesis using c(1) by blast
  qed
  from match_cases [of f1 f2]
  show "\<exists>pre consumed1 consumed2 comps.
             match_and_sum_absorbents f1 f2 (1 / 10 ^ 8) = Inr (pre, consumed1, consumed2)
           \<and> build_comparisons key_order f1 f2 = Inr comps
           \<and> distinct (map comp_name comps)
           \<and> set (map comp_name comps)
               = ?K - (set consumed1 \<union> set consumed2) \<union> set (map fst pre)
           \<and> set (map fst pre) \<subseteq> set consumed1 \<union> set consumed2
           \<and> set consumed1 \<union> set consumed2 \<subseteq> ?K"
  proof (elim disjE exE conjE)
    assume m: "match_and_sum_absorbents f1 f2 (1 / 10 ^ 8) = Inr ([], [], [])"
    from main [OF m] m show ?thesis by auto
  next
    fix k1 k2 k v1 v2 nt
    assume k: "k1 \<in> set (map fst f1)" "k2 \<in> set (map fst f1)" "k \<in> set (map fst f2)"
      and m: "match_and_sum_absorbents f1 f2 (1 / 10 ^ 8) = Inr ([(k, v1, v2, nt)], [k1, k2], [k])"
    have "\<exists>comps. build_comparisons key_order f1 f2 = Inr comps
           \<and> distinct (map comp_name comps)
           \<and> set (map comp_name comps)
              = ?K - (set [k1, k2] \<union> set [k]) \<union> set (map fst [(k, v1, v2, nt)])"
      by (rule main [OF m]) simp
    with m k show ?thesis
      by (intro exI [of _ "[(k, v1, v2, nt)]"] exI [of _ "[k1, k2]"] exI [of _ "[k]"]) auto
  next
    fix k1 k2 k v1 v2 nt
    assume k: "k1 \<in> set (map fst f2)" "k2 \<in> set (map fst f2)" "k \<in> set (map fst f1)"
      and m: "match_and_sum_absorbents f1 f2 (1 / 10 ^ 8) = Inr ([(k, v1, v2, nt)], [k], [k1, k2])"
    have "\<exists>comps. build_comparisons key_order f1 f2 = Inr comps
           \<and> distinct (map comp_name comps)
           \<and> set (map comp_name comps)
              = ?K - (set [k] \<union> set [k1, k2]) \<union> set (map fst [(k, v1, v2, nt)])"
      by (rule main [OF m]) simp
    with m k show ?thesis
      by (intro exI [of _ "[(k, v1, v2, nt)]"] exI [of _ "[k]"] exI [of _ "[k1, k2]"]) auto
  qed
qed

lemma ex_match_merge:
  "match_and_sum_absorbents [(''ABSORBENT_1'', 2), (''ABSORBENT_2'', 3), (''X'', 1)]
     [(''ABSORBENT'', 5), (''X'', 2)] (1 / 10 ^ 8)
   = Inr ([(''ABSORBENT'', Some 5, Some 5, ''sum of two absorbents in file1 vs single in file2'')],
          [''ABSORBENT_1'', ''ABSORBENT_2''], [''ABSORBENT''])"
  by code_simp

theorem comparison_paths_witness:
  "(\<exists>rows cnt. compare_dicts [(''x'', info ''1.0'' (Some 1))] [(''y'', info ''2'' (Some 2))]
        (1 / 10 ^ 12) (1 / 10 ^ 6) = Inr (rows, cnt)
      \<and> distinct (map variable rows) \<and> set (map variable rows) = {''x'', ''y''})
   \<and> (\<exists>comps. build_comparisons [''ABSORBENT_1'', ''X'', ''ABSORBENT_2'', ''ABSORBENT'']
          [(''ABSORBENT_1'', 2), (''ABSORBENT_2'', 3), (''X'', 1)] [(''ABSORBENT'', 5), (''X'', 2)]
        = Inr comps
      \<and> distinct (map comp_name comps) \<and> set (map comp_name comps) = {''X'', ''ABSORBENT''})"
proof -
  let ?ko = "[''ABSORBENT_1'', ''X'', ''ABSORBENT_2'', ''ABSORBENT'']"
  let ?f1 = "[(''ABSORBENT_1'', 2::real), (''ABSORBENT_2'', 3), (''X'', 1)]"
  let ?f2 = "[(''ABSORBENT'', 5::real), (''X'', 2)]"
  let ?d1 = "[(''x'', info ''1.0'' (Some 1))]"
  let ?d2 = "[(''y'', info ''2'' (Some 2))]"
  have h1: "distinct ?ko" by simp
  have h2: "set ?ko = set (map fst ?f1) \<union> set (map fst ?f2)" by auto
  from comparison_paths [OF h1 h2, of ?d1 ?d2 "1 / 10 ^ 12" "1 / 10 ^ 6"]
  obtain rows cnt pre c1 c2 comps where
    r: "compare_dicts ?d1 ?d2 (1 / 10 ^ 12) (1 / 10 ^ 6) = Inr (rows, cnt)"
       "distinct (map variable rows)"
       "set (map variable rows) = set (map fst ?d1) \<union> set (map fst ?d2)" and
    m: "match_and_sum_absorbents ?f1 ?f2 (1 / 10 ^ 8) = Inr (pre, c1, c2)" and
    b: "build_comparisons ?ko ?f1 ?f2 = Inr comps" "distinct (map comp_name comps)"
       "set (map comp_name comps)
          = (set (map fst ?f1) \<union> set (map fst ?f2)) - (set c1 \<union> set c2) \<union> set (map fst pre)"
    by blast
  from m ex_match_merge have p: "pre = [(''ABSORBENT'', Some 5, Some 5,
        ''sum of two absorbents in file1 vs single in file2'')]"
    "c1 = [''ABSORBENT_1'', ''ABSORBENT_2'']" "c2 = [''ABSORBENT'']"
    by simp_all
  have "set (map variable rows) = {''x'', ''y''}" using r(3) by auto
  moreover have "set (map comp_name comps) = {''X'', ''ABSORBENT''}"
    unfolding b(3) p by auto
  ultimately show ?thesis using r(1,2) b(1,2) by blast
qed

text \<open>
  Two absorbents on the left sum to the single absorbent on the right: the comparisons
  name \<open>X\<close> and \<open>ABSORBENT\<close> only, while the union of the keys also holds \<open>ABSORBENT_1\<close> and
  \<open>ABSORBENT_2\<close>.
\<close>

theorem flowsheet_paths_after_merge:
  "build_comparisons [''ABSORBENT_1'', ''X'', ''ABSORBENT_2'', ''ABSORBENT'']
     [(''ABSORBENT_1'', 2), (''ABSORBENT_2'', 3), (''X'', 1)] [(''ABSORBENT'', 5), (''X'', 2)]
   = Inr [(''X'', Some 1, Some 2, Some (- 1), Some (Fin (- 50)), []),
          (''ABSORBENT'', Some 5, Some 5, Some 0, Some (Fin 0),
           ''sum of two absorbents in file1 vs single in file2'')]"
  by code_simp

section \<open>Reconstruction: the order of the rows\<close>












lemma order_map_snoc:
  "order_map (ol @ [x]) = AList.update x (length ol) (order_map ol)"
proof -
  have "zip [0 ..< length (ol @ [x])] (ol @ [x]) = zip [0 ..< length ol] ol @ [(length ol, x)]"
    by simp
  then show ?thesis by (simp only: order_map_def foldl_append foldl_Cons foldl_Nil fst_conv snd_conv)
qed

lemma rank_snoc: "rank (ol @ [x]) p = (if p = x then length ol else rank ol p)"
  by (simp add: rank_def order_map_snoc update_conv')

lemma rank_last_position:
  "p \<in> set ol \<Longrightarrow> rank ol p < length ol \<and> ol ! rank ol p = p
     \<and> (\<forall>j. rank ol p < j \<and> j < length ol \<longrightarrow> ol ! j \<noteq> p)"
proof (induction ol rule: rev_induct)
  case Nil
  then show ?case by simp
next
  case (snoc x xs)
  show ?case
  proof (cases "p = x")
    case True
    then show ?thesis by (auto simp: rank_snoc)
  next
    case False
    with snoc.prems have "p \<in> set xs" by simp
    from snoc.IH [OF this] False show ?thesis
      by (auto simp: rank_snoc nth_append less_Suc_eq)
  qed
qed

section \<open>Rows follow the ordering file\<close>





end
